theory Spec2Isabelle
  imports Main
begin

section \<open>Python values, errors and dictionaries\<close>

text \<open>
  The module \<^verbatim>\<open>main.py\<close> defines the abstract classes \<^verbatim>\<open>Observer\<close> and
  \<^verbatim>\<open>Subject\<close>, the subject \<^verbatim>\<open>CpuSensor\<close>, and the observers \<^verbatim>\<open>CpuController\<close>
  and \<^verbatim>\<open>TempDisplay\<close>. The driver registers the two observer classes themselves (the
  class objects, not instances) on one sensor.

  Exceptions are values of \<open>error\<close>. Every operation returns the exception it raised, if
  any, together with the state it left behind, since Python keeps every mutation and
  every line printed before the exception.
\<close>

datatype error = TypeError | AttributeError | ValueError

text \<open>The classes of the observer hierarchy.\<close>

datatype cls = Observer | CpuController | TempDisplay

text \<open>
  What can be registered in this model: a class object of the hierarchy (what the driver
  registers), or an instance, identified by its address, whose class keeps the declared
  signatures \<^verbatim>\<open>update(self, data)\<close> and \<^verbatim>\<open>on_change(self)\<close>.
\<close>

datatype observer = ClassObj cls | Instance cls nat

text \<open>
  Attribute values: integers (unbounded, as Python's), strings, \<^verbatim>\<open>None\<close>, and lists of
  observers (the registry is one). Lists are held by value: two attributes never share
  one list object in this model.
\<close>

datatype val = IntV int | StrV string | NoneV | ListV "observer list"

text \<open>
  A Python dictionary keeps its keys in insertion order: an association list with
  distinct keys. Assigning to an existing key keeps the key's position; a new key goes to
  the end.
\<close>

type_synonym 'a dict = "(string \<times> 'a) list"

fun setitem :: "string \<Rightarrow> 'a \<Rightarrow> 'a dict \<Rightarrow> 'a dict" where
  "setitem k v [] = [(k, v)]"
| "setitem k v ((k', v') # d) = (if k' = k then (k, v) # d else (k', v') # setitem k v d)"

definition startswith :: "string \<Rightarrow> string \<Rightarrow> bool" where
  "startswith s p = (take (length p) s = p)"

subsection \<open>Text of values\<close>

definition digit_char :: "nat \<Rightarrow> char" where
  "digit_char d = ''0123456789'' ! d"

fun digits :: "nat \<Rightarrow> string" where
  "digits n = (if n < 10 then [digit_char n] else digits (n div 10) @ [digit_char (n mod 10)])"

declare digits.simps [simp del]

definition str_int :: "int \<Rightarrow> string" where
  "str_int i = (if i < 0 then CHR ''-'' # digits (nat (- i)) else digits (nat i))"

fun join :: "string \<Rightarrow> string list \<Rightarrow> string" where
  "join sep [] = []"
| "join sep [x] = x"
| "join sep (x # y # ys) = x @ sep @ join sep (y # ys)"

text \<open>
  \<open>py_str r v\<close> is the text an f-string puts for \<open>v\<close>. The text of a class object or of
  an instance belongs to the interpreter (it holds module names and addresses): it is the
  parameter \<open>r\<close>.
\<close>

fun py_str :: "(observer \<Rightarrow> string) \<Rightarrow> val \<Rightarrow> string" where
  "py_str r (IntV i) = str_int i"
| "py_str r (StrV s) = s"
| "py_str r NoneV = ''None''"
| "py_str r (ListV os) = ''['' @ join '', '' (map r os) @ '']''"

text \<open>\<^verbatim>\<open>x > n\<close> for an integer \<open>n\<close>: only numbers are ordered against an int.\<close>

fun py_gt :: "val \<Rightarrow> int \<Rightarrow> error + bool" where
  "py_gt (IntV i) n = Inr (i > n)"
| "py_gt (StrV s) n = Inl TypeError"
| "py_gt NoneV n = Inl TypeError"
| "py_gt (ListV os) n = Inl TypeError"

section \<open>The state of the program\<close>

text \<open>
  \<open>sensor\<close> is \<^verbatim>\<open>cpu_sensor.__dict__\<close>; \<open>attrs ob\<close> holds the attributes assigned to the
  observer \<open>ob\<close> by \<^verbatim>\<open>setattr\<close>; \<open>stdout\<close> has one entry for each \<^verbatim>\<open>print\<close> call, the
  text followed by its \<^verbatim>\<open>end\<close>; \<open>calls\<close> records each entry into the body of
  \<^verbatim>\<open>Observer.update\<close> with its two arguments; \<open>repr_of\<close> is the interpreter's text for
  each observer object.
\<close>

record world =
  sensor :: "val dict"
  attrs :: "observer \<Rightarrow> string \<rightharpoonup> val"
  stdout :: "string list"
  calls :: "(observer \<times> val dict) list"
  repr_of :: "observer \<Rightarrow> string"

type_synonym outcome = "error option \<times> world"

definition py_print :: "string \<Rightarrow> string \<Rightarrow> world \<Rightarrow> world" where
  "py_print s e w = w\<lparr>stdout := stdout w @ [s @ e]\<rparr>"

definition setattr :: "observer \<Rightarrow> string \<Rightarrow> val \<Rightarrow> world \<Rightarrow> world" where
  "setattr ob name v w = w\<lparr>attrs := (attrs w)(ob := (attrs w ob)(name \<mapsto> v))\<rparr>"

section \<open>Attribute lookup and the call protocol\<close>

text \<open>
  The method resolution order of each class, and the functions each class body defines
  with the number of their positional parameters and whether they carry
  \<^verbatim>\<open>@abstractmethod\<close>.
\<close>

fun mro :: "cls \<Rightarrow> cls list" where
  "mro Observer = [Observer]"
| "mro CpuController = [CpuController, Observer]"
| "mro TempDisplay = [TempDisplay, Observer]"

fun body :: "cls \<Rightarrow> (string \<times> nat \<times> bool) list" where
  "body Observer = [(''update'', 2, True), (''on_change'', 1, True)]"
| "body CpuController = [(''on_change'', 1, False)]"
| "body TempDisplay = [(''on_change'', 1, False)]"

text \<open>
  What an attribute lookup finds: a value stored by \<^verbatim>\<open>setattr\<close>, or the function that
  the body of a class defines. \<^verbatim>\<open>setattr\<close> on a class replaces the entry of that name in
  the class's own dictionary, so a stored value hides the function of the same class.
\<close>

datatype member = Data val | Func cls string nat

fun class_lookup :: "world \<Rightarrow> cls list \<Rightarrow> string \<Rightarrow> member option" where
  "class_lookup w [] name = None"
| "class_lookup w (c # cs) name =
     (case attrs w (ClassObj c) name of
        Some v \<Rightarrow> Some (Data v)
      | None \<Rightarrow>
          (case map_of (body c) name of
             Some (n, a) \<Rightarrow> Some (Func c name n)
           | None \<Rightarrow> class_lookup w cs name))"

fun getattr :: "world \<Rightarrow> observer \<Rightarrow> string \<Rightarrow> member option" where
  "getattr w (ClassObj c) name = class_lookup w (mro c) name"
| "getattr w (Instance c k) name =
     (case attrs w (Instance c k) name of
        Some v \<Rightarrow> Some (Data v)
      | None \<Rightarrow> class_lookup w (mro c) name)"

text \<open>
  A function reached through a class object is called with the explicit arguments; one
  reached through an instance is a bound method and receives the instance first.
\<close>

fun passed :: "observer \<Rightarrow> nat \<Rightarrow> nat" where
  "passed (ClassObj c) n = n"
| "passed (Instance c k) n = Suc n"

section \<open>The observers\<close>

text \<open>
  \<^verbatim>\<open>self.temp\<close> read inside \<^verbatim>\<open>on_change\<close>. No class body defines \<^verbatim>\<open>temp\<close>, so the lookup
  finds a stored value or raises.
\<close>

definition get_temp :: "world \<Rightarrow> observer \<Rightarrow> val option" where
  "get_temp w self =
     (case getattr w self ''temp'' of Some (Data v) \<Rightarrow> Some v | _ \<Rightarrow> None)"

text \<open>The body of \<^verbatim>\<open>on_change\<close> as class \<open>c\<close> defines it, run with \<open>self\<close>.\<close>

fun on_change :: "cls \<Rightarrow> observer \<Rightarrow> world \<Rightarrow> outcome" where
  "on_change Observer self w = (None, w)"
| "on_change CpuController self w =
     (let w1 = py_print ''\<newline>'' ''\<newline>'' w;
          w2 = py_print ''CpuController: '' '''' w1
      in case get_temp w2 self of
           None \<Rightarrow> (Some AttributeError, w2)
         | Some t \<Rightarrow>
             (case py_gt t 90 of
                Inl e \<Rightarrow> (Some e, w2)
              | Inr True \<Rightarrow> (None, py_print ''Panic!'' ''\<newline>'' w2)
              | Inr False \<Rightarrow> (None, py_print ''Everything under control'' ''\<newline>'' w2)))"
| "on_change TempDisplay self w =
     (let w1 = py_print ''Display: '' '''' w
      in case get_temp w1 self of
           None \<Rightarrow> (Some AttributeError, w1)
         | Some t \<Rightarrow> (None, py_print (py_str (repr_of w1) t @ '' Deg'') ''\<newline>'' w1))"

text \<open>
  The call \<^verbatim>\<open>self.on_change(self)\<close>: look the attribute up on \<open>self\<close>, then call what was
  found with one explicit argument.
\<close>

definition call_on_change :: "observer \<Rightarrow> world \<Rightarrow> outcome" where
  "call_on_change self w =
     (case getattr w self ''on_change'' of
        None \<Rightarrow> (Some AttributeError, w)
      | Some (Data v) \<Rightarrow> (Some TypeError, w)
      | Some (Func c name n) \<Rightarrow>
          if passed self 1 \<noteq> n then (Some TypeError, w) else on_change c self w)"

text \<open>The body of \<^verbatim>\<open>Observer.update\<close>, run with \<open>self\<close> and \<open>data\<close>.\<close>

definition update :: "observer \<Rightarrow> val dict \<Rightarrow> world \<Rightarrow> outcome" where
  "update self data w =
     (let w1 = w\<lparr>calls := calls w @ [(self, data)]\<rparr>;
          w2 = fold (\<lambda>(name, v). setattr self name v) data w1
      in call_on_change self w2)"

text \<open>
  The call \<^verbatim>\<open>observer.update(observer, data)\<close> made by \<^verbatim>\<open>notify\<close>: two explicit
  arguments.
\<close>

definition call_update :: "observer \<Rightarrow> val dict \<Rightarrow> world \<Rightarrow> outcome" where
  "call_update ob data w =
     (case getattr w ob ''update'' of
        None \<Rightarrow> (Some AttributeError, w)
      | Some (Data v) \<Rightarrow> (Some TypeError, w)
      | Some (Func c name n) \<Rightarrow>
          if passed ob 2 \<noteq> n then (Some TypeError, w) else update ob data w)"

section \<open>The subject\<close>

text \<open>\<^verbatim>\<open>CpuSensor()\<close>: the constructor binds \<^verbatim>\<open>_observers\<close> to an empty list.\<close>

definition new_sensor :: "val dict" where
  "new_sensor = [(''_observers'', ListV [])]"

text \<open>\<^verbatim>\<open>list.remove\<close>: drops the first element equal to \<open>x\<close>, \<open>None\<close> when there is none.\<close>

fun list_remove :: "'a \<Rightarrow> 'a list \<Rightarrow> 'a list option" where
  "list_remove x [] = None"
| "list_remove x (y # ys) =
     (if y = x then Some ys else map_option ((#) y) (list_remove x ys))"

definition register :: "observer \<Rightarrow> world \<Rightarrow> outcome" where
  "register ob w =
     (case map_of (sensor w) ''_observers'' of
        Some (ListV os) \<Rightarrow>
          (None, w\<lparr>sensor := setitem ''_observers'' (ListV (os @ [ob])) (sensor w)\<rparr>)
      | _ \<Rightarrow> (Some AttributeError, w))"

definition remove :: "observer \<Rightarrow> world \<Rightarrow> outcome" where
  "remove ob w =
     (case map_of (sensor w) ''_observers'' of
        Some (ListV os) \<Rightarrow>
          (case list_remove ob os of
             None \<Rightarrow> (Some ValueError, w)
           | Some os' \<Rightarrow> (None, w\<lparr>sensor := setitem ''_observers'' (ListV os') (sensor w)\<rparr>))
      | _ \<Rightarrow> (Some AttributeError, w))"

text \<open>
  \<^verbatim>\<open>_get_vars\<close>: the entries of \<^verbatim>\<open>__dict__\<close>, in its order, whose key does not start with
  an underscore.
\<close>

definition get_vars :: "world \<Rightarrow> val dict" where
  "get_vars w = [(key, v) \<leftarrow> sensor w. \<not> startswith key ''_'']"

text \<open>The loop of \<^verbatim>\<open>notify\<close>: the first exception ends it.\<close>

fun notify_loop :: "observer list \<Rightarrow> world \<Rightarrow> outcome" where
  "notify_loop [] w = (None, w)"
| "notify_loop (ob # obs) w =
     (case call_update ob (get_vars w) w of
        (Some e, w') \<Rightarrow> (Some e, w')
      | (None, w') \<Rightarrow> notify_loop obs w')"

text \<open>
  \<^verbatim>\<open>notify\<close> reads \<^verbatim>\<open>self._observers\<close> and iterates over it. Without the attribute the
  read raises; an integer or \<^verbatim>\<open>None\<close> is not iterable; a string iterates over its
  characters, which have no \<^verbatim>\<open>update\<close>.
\<close>

definition notify :: "world \<Rightarrow> outcome" where
  "notify w =
     (case map_of (sensor w) ''_observers'' of
        None \<Rightarrow> (Some AttributeError, w)
      | Some (ListV os) \<Rightarrow> notify_loop os w
      | Some (StrV s) \<Rightarrow> (if s = [] then (None, w) else (Some AttributeError, w))
      | Some (IntV i) \<Rightarrow> (Some TypeError, w)
      | Some NoneV \<Rightarrow> (Some TypeError, w))"

definition change_measurements :: "val \<Rightarrow> world \<Rightarrow> outcome" where
  "change_measurements temp w = notify (w\<lparr>sensor := setitem ''temp'' temp (sensor w)\<rparr>)"

section \<open>Running the program\<close>

text \<open>
  The state when the module starts: \<^verbatim>\<open>cpu_sensor = CpuSensor()\<close> has run, nothing is
  printed, no observer has an attribute of its own. The driver then registers the two
  observer classes.
\<close>

definition start :: "(observer \<Rightarrow> string) \<Rightarrow> world" where
  "start r = \<lparr>sensor = new_sensor, attrs = (\<lambda>ob. Map.empty), stdout = [], calls = [],
              repr_of = r\<rparr>"

definition and_then :: "outcome \<Rightarrow> (world \<Rightarrow> outcome) \<Rightarrow> outcome" where
  "and_then r f = (case r of (None, w) \<Rightarrow> f w | (Some e, w) \<Rightarrow> (Some e, w))"

definition driver_setup :: "(observer \<Rightarrow> string) \<Rightarrow> outcome" where
  "driver_setup r =
     and_then (register (ClassObj CpuController) (start r)) (register (ClassObj TempDisplay))"

text \<open>
  The operations a caller has on the sensor, and a caller that runs a sequence of them,
  going on after an exception with the state the failed call left.
\<close>

datatype op = Register observer | Remove observer | Notify | ChangeMeasurements val

fun step :: "op \<Rightarrow> world \<Rightarrow> outcome" where
  "step (Register ob) w = register ob w"
| "step (Remove ob) w = remove ob w"
| "step Notify w = notify w"
| "step (ChangeMeasurements v) w = change_measurements v w"

fun run :: "op list \<Rightarrow> world \<Rightarrow> world" where
  "run [] w = w"
| "run (x # xs) w = run xs (snd (step x w))"

section \<open>Abstract methods and instantiation\<close>





section \<open>Classes whose methods are in place\<close>

text \<open>
  \<^verbatim>\<open>setattr\<close> with the name \<^verbatim>\<open>update\<close> or \<^verbatim>\<open>on_change\<close> puts a value where the method
  was. \<open>methods_intact\<close> says that no class of the hierarchy has such a stored value, as
  when the module has just been loaded.
\<close>

definition methods_intact :: "world \<Rightarrow> bool" where
  "methods_intact w =
     list_all (\<lambda>c. attrs w (ClassObj c) ''update'' = None \<and>
                    attrs w (ClassObj c) ''on_change'' = None)
       [Observer, CpuController, TempDisplay]"

text \<open>A caller that registers the observers of a list, one \<^verbatim>\<open>register\<close> call each.\<close>

definition register_all :: "observer list \<Rightarrow> world \<Rightarrow> world" where
  "register_all obs w = run (map Register obs) w"

text \<open>The registry as a list: empty when \<^verbatim>\<open>_observers\<close> is missing or is not a list.\<close>

definition registry :: "world \<Rightarrow> observer list" where
  "registry w = (case map_of (sensor w) ''_observers'' of Some (ListV os) \<Rightarrow> os | _ \<Rightarrow> [])"

section \<open>Example states\<close>

definition plain_repr :: "observer \<Rightarrow> string" where
  "plain_repr ob = ''<object>''"

definition both_registered :: world where
  "both_registered = snd (driver_setup plain_repr)"

definition both_at_60 :: world where
  "both_at_60 = both_registered\<lparr>sensor := setitem ''temp'' (IntV 60) (sensor both_registered)\<rparr>"

definition twice_registered :: world where
  "twice_registered =
     run [Register (ClassObj CpuController), Register (ClassObj CpuController),
          ChangeMeasurements (IntV 60)] (start plain_repr)"

definition controller_at_90 :: world where
  "controller_at_90 = setattr (ClassObj CpuController) ''temp'' (IntV 90) (start plain_repr)"

definition display_at_73 :: world where
  "display_at_73 = setattr (ClassObj TempDisplay) ''temp'' (IntV 73) (start plain_repr)"


section \<open>Reading a decimal numeral\<close>

text \<open>
  The integer that a decimal numeral with an optional minus sign denotes. It is not part
  of the program: it states what the text printed by \<^verbatim>\<open>TempDisplay\<close> denotes.
\<close>

definition digit_val :: "char \<Rightarrow> nat" where
  "digit_val c = of_char c - 48"

definition decimal_nat :: "string \<Rightarrow> nat" where
  "decimal_nat s = foldl (\<lambda>n c. 10 * n + digit_val c) 0 s"

definition decimal_int :: "string \<Rightarrow> int" where
  "decimal_int s =
     (case s of
        [] \<Rightarrow> 0
      | c # cs \<Rightarrow> if c = CHR ''-'' then - int (decimal_nat cs) else int (decimal_nat s))"

section \<open>Dictionaries, and what leaves the sensor alone\<close>

lemma map_of_setitem: "map_of (setitem k v d) = (map_of d)(k \<mapsto> v)"
  by (induction d) (auto simp: fun_eq_iff)

lemma keys_setitem:
  "map fst (setitem k v d) = (if k \<in> fst ` set d then map fst d else map fst d @ [k])"
  by (induction d) force+

lemma distinct_setitem: "distinct (map fst d) \<Longrightarrow> distinct (map fst (setitem k v d))"
  by (simp add: keys_setitem)

lemma sensor_py_print [simp]: "sensor (py_print s e w) = sensor w"
  by (simp add: py_print_def)

lemma sensor_setattr [simp]: "sensor (setattr ob name v w) = sensor w"
  by (simp add: setattr_def)

lemma sensor_fold_setattr [simp]:
  "sensor (fold (\<lambda>(name, v). setattr self name v) data w) = sensor w"
  by (induction data arbitrary: w) (auto)

lemma sensor_on_change: "sensor (snd (on_change c self w)) = sensor w"
  by (cases c) (auto simp: Let_def split: option.splits sum.splits bool.splits)

lemma sensor_call_on_change: "sensor (snd (call_on_change self w)) = sensor w"
  by (auto simp: call_on_change_def sensor_on_change split: option.splits member.splits)

lemma sensor_update: "sensor (snd (update self data w)) = sensor w"
  by (simp add: update_def Let_def sensor_call_on_change)

lemma sensor_call_update: "sensor (snd (call_update ob data w)) = sensor w"
  by (auto simp: call_update_def sensor_update split: option.splits member.splits)

lemma sensor_notify_loop: "sensor (snd (notify_loop os w)) = sensor w"
proof (induction os arbitrary: w)
  case Nil
  show ?case by simp
next
  case (Cons ob os)
  obtain e w' where r: "call_update ob (get_vars w) w = (e, w')"
    by (cases "call_update ob (get_vars w) w")
  have s: "sensor w' = sensor w"
    using sensor_call_update [of ob "get_vars w" w] r by simp
  show ?case
  proof (cases e)
    case None
    with r s Cons.IH [of w'] show ?thesis by simp
  next
    case (Some err)
    with r s show ?thesis by simp
  qed
qed

lemma sensor_notify: "sensor (snd (notify w)) = sensor w"
  by (auto simp: notify_def sensor_notify_loop split: option.splits val.splits)

subsection \<open>The record of update calls\<close>

lemma calls_py_print [simp]: "calls (py_print s e w) = calls w"
  by (simp add: py_print_def)

lemma calls_setattr [simp]: "calls (setattr ob name v w) = calls w"
  by (simp add: setattr_def)

lemma calls_fold_setattr [simp]:
  "calls (fold (\<lambda>(name, v). setattr self name v) data w) = calls w"
  by (induction data arbitrary: w) auto

lemma calls_on_change: "calls (snd (on_change c self w)) = calls w"
  by (cases c) (auto simp: Let_def split: option.splits sum.splits bool.splits)

lemma calls_call_on_change: "calls (snd (call_on_change self w)) = calls w"
  by (auto simp: call_on_change_def calls_on_change split: option.splits member.splits)

lemma calls_update: "calls (snd (update self data w)) = calls w @ [(self, data)]"
  by (simp add: update_def Let_def calls_call_on_change)

lemma calls_call_update:
  "calls (snd (call_update ob data w)) = calls w \<or>
   calls (snd (call_update ob data w)) = calls w @ [(ob, data)]"
  by (auto simp: call_update_def calls_update split: option.splits member.splits)

lemma calls_call_update_ok:
  "fst (call_update ob data w) = None \<Longrightarrow>
   calls (snd (call_update ob data w)) = calls w @ [(ob, data)]"
  by (auto simp: call_update_def calls_update split: option.splits member.splits if_splits)

lemma get_vars_cong: "sensor w' = sensor w \<Longrightarrow> get_vars w' = get_vars w"
  by (simp add: get_vars_def)

lemma calls_notify_loop_ok:
  "fst (notify_loop os w) = None \<Longrightarrow>
   calls (snd (notify_loop os w)) = calls w @ map (\<lambda>ob. (ob, get_vars w)) os"
proof (induction os arbitrary: w)
  case Nil
  show ?case by simp
next
  case (Cons ob os)
  obtain e w' where r: "call_update ob (get_vars w) w = (e, w')"
    by (cases "call_update ob (get_vars w) w")
  from Cons.prems r have e: "e = None" and ok: "fst (notify_loop os w') = None"
    by (auto split: option.splits)
  have s: "sensor w' = sensor w"
    using sensor_call_update [of ob "get_vars w" w] r by simp
  have c: "calls w' = calls w @ [(ob, get_vars w)]"
    using calls_call_update_ok [of ob "get_vars w" w] r e by simp
  have "calls (snd (notify_loop os w')) = calls w' @ map (\<lambda>ob. (ob, get_vars w')) os"
    using Cons.IH [OF ok] .
  with r e c get_vars_cong [OF s] show ?case by simp
qed

lemma calls_notify_loop_prefix:
  "\<exists>k\<le>length os. calls (snd (notify_loop os w)) =
     calls w @ map (\<lambda>ob. (ob, get_vars w)) (take k os)"
proof (induction os arbitrary: w)
  case Nil
  show ?case by simp
next
  case (Cons ob os)
  obtain e w' where r: "call_update ob (get_vars w) w = (e, w')"
    by (cases "call_update ob (get_vars w) w")
  have s: "sensor w' = sensor w"
    using sensor_call_update [of ob "get_vars w" w] r by simp
  show ?case
  proof (cases e)
    case (Some err)
    from calls_call_update [of ob "get_vars w" w] r
    consider "calls w' = calls w" | "calls w' = calls w @ [(ob, get_vars w)]" by auto
    then show ?thesis
    proof cases
      case 1
      with r Some have "calls (snd (notify_loop (ob # os) w)) =
        calls w @ map (\<lambda>ob. (ob, get_vars w)) (take 0 (ob # os))" by simp
      then show ?thesis by blast
    next
      case 2
      with r Some have "calls (snd (notify_loop (ob # os) w)) =
        calls w @ map (\<lambda>ob. (ob, get_vars w)) (take (Suc 0) (ob # os))" by simp
      moreover have "Suc 0 \<le> length (ob # os)" by simp
      ultimately show ?thesis by blast
    qed
  next
    case None
    have c: "calls w' = calls w @ [(ob, get_vars w)]"
      using calls_call_update_ok [of ob "get_vars w" w] r None by simp
    from Cons.IH [of w'] obtain k where k: "k \<le> length os"
      and ck: "calls (snd (notify_loop os w')) =
        calls w' @ map (\<lambda>ob. (ob, get_vars w')) (take k os)" by blast
    from r None c ck get_vars_cong [OF s]
    have "calls (snd (notify_loop (ob # os) w)) =
        calls w @ map (\<lambda>ob. (ob, get_vars w)) (take (Suc k) (ob # os))" by simp
    moreover have "Suc k \<le> length (ob # os)" using k by simp
    ultimately show ?thesis by blast
  qed
qed

subsection \<open>Removing from a list\<close>

lemma list_remove_absent: "x \<notin> set xs \<Longrightarrow> list_remove x xs = None"
  by (induction xs) auto

lemma list_remove_first:
  "x \<notin> set pre \<Longrightarrow> list_remove x (pre @ x # post) = Some (pre @ post)"
  by (induction pre) auto

section \<open>Attribute lookup, decimal text\<close>

subsection \<open>Lookups see only the attributes\<close>

lemma class_lookup_cong:
  "attrs w' = attrs w \<Longrightarrow> class_lookup w' cs name = class_lookup w cs name"
  by (induction cs) (auto split: option.splits)

lemma getattr_cong: "attrs w' = attrs w \<Longrightarrow> getattr w' ob name = getattr w ob name"
  by (cases ob) (auto simp: class_lookup_cong [of w' w] split: option.splits)

lemma get_temp_cong: "attrs w' = attrs w \<Longrightarrow> get_temp w' ob = get_temp w ob"
  by (simp add: get_temp_def getattr_cong [of w' w])

lemma attrs_py_print [simp]: "attrs (py_print s e w) = attrs w"
  by (simp add: py_print_def)

lemma repr_of_py_print [simp]: "repr_of (py_print s e w) = repr_of w"
  by (simp add: py_print_def)

lemma get_temp_stdout [simp]: "get_temp (w\<lparr>stdout := x\<rparr>) ob = get_temp w ob"
  by (rule get_temp_cong) simp

lemma get_temp_py_print [simp]: "get_temp (py_print s e w) ob = get_temp w ob"
  by (rule get_temp_cong) simp

subsection \<open>Decimal text\<close>

lemma digit_cases:
  "d < 10 \<Longrightarrow>
   d = 0 \<or> d = 1 \<or> d = 2 \<or> d = 3 \<or> d = 4 \<or> d = 5 \<or> d = 6 \<or> d = 7 \<or> d = 8 \<or> d = (9::nat)"
  by arith

lemma digit_val_digit_char: "d < 10 \<Longrightarrow> digit_val (digit_char d) = d"
  using digit_cases [of d] by (auto simp: digit_val_def digit_char_def)

lemma digit_char_not_minus: "d < 10 \<Longrightarrow> digit_char d \<noteq> CHR ''-''"
  using digit_cases [of d] by (auto simp: digit_char_def)

lemma decimal_nat_snoc: "decimal_nat (s @ [c]) = 10 * decimal_nat s + digit_val c"
  by (simp add: decimal_nat_def)

lemma decimal_nat_digits: "decimal_nat (digits n) = n"
proof (induction n rule: digits.induct)
  case (1 n)
  show ?case
  proof (cases "n < 10")
    case True
    then show ?thesis
      by (simp add: digits.simps [of n] decimal_nat_def digit_val_digit_char)
  next
    case False
    with "1.IH" have "decimal_nat (digits (n div 10)) = n div 10" by simp
    with False show ?thesis
      by (simp add: digits.simps [of n] decimal_nat_snoc digit_val_digit_char)
  qed
qed

lemma digits_first: "\<exists>c cs. digits n = c # cs \<and> c \<noteq> CHR ''-''"
proof (induction n rule: digits.induct)
  case (1 n)
  show ?case
  proof (cases "n < 10")
    case True
    then show ?thesis
      by (simp add: digits.simps [of n] digit_char_not_minus)
  next
    case False
    with "1.IH" obtain c cs where "digits (n div 10) = c # cs" "c \<noteq> CHR ''-''" by auto
    with False show ?thesis
      by (simp add: digits.simps [of n])
  qed
qed

lemma decimal_int_str_int: "decimal_int (str_int i) = i"
proof (cases "i < 0")
  case True
  then show ?thesis
    by (simp add: str_int_def decimal_int_def decimal_nat_digits)
next
  case False
  obtain c cs where d: "digits (nat i) = c # cs" "c \<noteq> CHR ''-''"
    using digits_first by blast
  have "decimal_nat (c # cs) = nat i"
    using decimal_nat_digits [of "nat i"] d by simp
  with False d show ?thesis
    by (simp add: str_int_def decimal_int_def)
qed

section \<open>Attributes after an update\<close>

lemma methods_intact_iff:
  "methods_intact w =
     (\<forall>c. attrs w (ClassObj c) ''update'' = None \<and> attrs w (ClassObj c) ''on_change'' = None)"
proof
  assume m: "methods_intact w"
  show "\<forall>c. attrs w (ClassObj c) ''update'' = None \<and> attrs w (ClassObj c) ''on_change'' = None"
  proof
    fix c
    from m show "attrs w (ClassObj c) ''update'' = None \<and> attrs w (ClassObj c) ''on_change'' = None"
      by (cases c) (simp_all add: methods_intact_def)
  qed
next
  assume "\<forall>c. attrs w (ClassObj c) ''update'' = None \<and> attrs w (ClassObj c) ''on_change'' = None"
  then show "methods_intact w"
    by (simp add: methods_intact_def)
qed

lemma methods_intact_cong: "attrs w' = attrs w \<Longrightarrow> methods_intact w' = methods_intact w"
  by (simp add: methods_intact_def)

lemma get_temp_own: "attrs w ob ''temp'' = Some v \<Longrightarrow> get_temp w ob = Some v"
proof (cases ob)
  case (ClassObj c)
  assume "attrs w ob ''temp'' = Some v"
  with ClassObj show ?thesis
    by (cases c) (simp_all add: get_temp_def)
next
  case (Instance c k)
  assume "attrs w ob ''temp'' = Some v"
  with Instance show ?thesis
    by (simp add: get_temp_def)
qed

lemma attrs_on_change: "attrs (snd (on_change c self w)) = attrs w"
  by (cases c) (auto simp: Let_def split: option.splits sum.splits bool.splits)

lemma attrs_call_on_change: "attrs (snd (call_on_change self w)) = attrs w"
  by (auto simp: call_on_change_def attrs_on_change split: option.splits member.splits)

lemma setattr_calls:
  "setattr ob name v (w\<lparr>calls := x\<rparr>) = (setattr ob name v w)\<lparr>calls := x\<rparr>"
  by (simp add: setattr_def)

lemma fold_setattr_calls:
  "fold (\<lambda>(name, v). setattr self name v) data (w\<lparr>calls := x\<rparr>) =
   (fold (\<lambda>(name, v). setattr self name v) data w)\<lparr>calls := x\<rparr>"
  by (induction data arbitrary: w) (auto simp: setattr_calls)

lemma attrs_update:
  "attrs (snd (update self data w)) = attrs (fold (\<lambda>(name, v). setattr self name v) data w)"
  by (simp add: update_def Let_def attrs_call_on_change fold_setattr_calls)

lemma attrs_call_update:
  "attrs (snd (call_update ob data w)) = attrs w \<or>
   attrs (snd (call_update ob data w)) =
     attrs (fold (\<lambda>(name, v). setattr ob name v) data w)"
  by (auto simp: call_update_def attrs_update split: option.splits member.splits)

lemma attrs_call_update_ok:
  "fst (call_update ob data w) = None \<Longrightarrow>
   attrs (snd (call_update ob data w)) =
     attrs (fold (\<lambda>(name, v). setattr ob name v) data w)"
  by (auto simp: call_update_def attrs_update split: option.splits member.splits if_splits)

lemma fold_setattr_other:
  "ob \<noteq> self \<Longrightarrow> attrs (fold (\<lambda>(name, v). setattr self name v) data w) ob = attrs w ob"
  by (induction data arbitrary: w) (auto simp: setattr_def)

lemma fold_setattr_notin:
  "n \<notin> fst ` set data \<Longrightarrow>
   attrs (fold (\<lambda>(name, v). setattr self name v) data w) ob n = attrs w ob n"
  by (induction data arbitrary: w) (auto simp: setattr_def)

lemma fold_setattr_in:
  "distinct (map fst data) \<Longrightarrow> (n, v) \<in> set data \<Longrightarrow>
   attrs (fold (\<lambda>(name, v). setattr self name v) data w) self n = Some v"
proof (induction data arbitrary: w)
  case Nil
  then show ?case by simp
next
  case (Cons x data)
  show ?case
  proof (cases "x = (n, v)")
    case True
    with Cons.prems have "n \<notin> fst ` set data" by auto
    then have "attrs (fold (\<lambda>(name, v). setattr self name v) data (setattr self n v w)) self n =
        attrs (setattr self n v w) self n"
      by (rule fold_setattr_notin)
    moreover have "attrs (setattr self n v w) self n = Some v"
      by (simp add: setattr_def)
    ultimately show ?thesis using True by simp
  next
    case False
    with Cons.prems have "distinct (map fst data)" "(n, v) \<in> set data" by auto
    then show ?thesis using Cons.IH by simp
  qed
qed

lemma setitem_mem: "(k, v) \<in> set (setitem k v d)"
  by (induction d) auto

lemma filter_setitem_private:
  "startswith k ''_'' \<Longrightarrow>
   [(key, x) \<leftarrow> setitem k v d. \<not> startswith key ''_''] =
   [(key, x) \<leftarrow> d. \<not> startswith key ''_'']"
proof (induction d)
  case Nil
  then show ?case by simp
next
  case (Cons p d)
  obtain a b where p: "p = (a, b)" by (cases p)
  show ?case
  proof (cases "a = k")
    case True
    with p Cons.prems show ?thesis by simp
  next
    case False
    with p Cons show ?thesis by simp
  qed
qed

lemma filter_setitem_public:
  "\<not> startswith k ''_'' \<Longrightarrow>
   [(key, x) \<leftarrow> setitem k v d. \<not> startswith key ''_''] =
   setitem k v [(key, x) \<leftarrow> d. \<not> startswith key ''_'']"
proof (induction d)
  case Nil
  then show ?case by simp
next
  case (Cons p d)
  obtain a b where p: "p = (a, b)" by (cases p)
  show ?case
  proof (cases "a = k")
    case True
    with p Cons.prems show ?thesis by simp
  next
    case False
    with p Cons show ?thesis by simp
  qed
qed

lemma get_vars_setitem_private:
  "startswith k ''_'' \<Longrightarrow>
   get_vars (w\<lparr>sensor := setitem k v (sensor w)\<rparr>) = get_vars w"
  by (simp add: get_vars_def filter_setitem_private)

lemma get_vars_setitem_public:
  "\<not> startswith k ''_'' \<Longrightarrow>
   get_vars (w\<lparr>sensor := setitem k v (sensor w)\<rparr>) = setitem k v (get_vars w)"
  by (simp add: get_vars_def filter_setitem_public)

lemma private_observers: "startswith ''_observers'' ''_''"
  by (simp add: startswith_def)

lemma public_temp: "\<not> startswith ''temp'' ''_''"
  by (simp add: startswith_def)

subsection \<open>Registering\<close>

lemma register_ok:
  "map_of (sensor w) ''_observers'' = Some (ListV os) \<Longrightarrow>
   register ob w =
     (None, w\<lparr>sensor := setitem ''_observers'' (ListV (os @ [ob])) (sensor w)\<rparr>)"
  by (simp add: register_def)

lemma register_all_Nil [simp]: "register_all [] w = w"
  by (simp add: register_all_def)

lemma register_all_Cons [simp]:
  "register_all (ob # obs) w = register_all obs (snd (register ob w))"
  by (simp add: register_all_def)

lemma register_all_facts:
  "map_of (sensor w) ''_observers'' = Some (ListV os) \<Longrightarrow>
   map_of (sensor (register_all rs w)) ''_observers'' = Some (ListV (os @ rs)) \<and>
   get_vars (register_all rs w) = get_vars w \<and>
   attrs (register_all rs w) = attrs w \<and>
   calls (register_all rs w) = calls w \<and>
   stdout (register_all rs w) = stdout w"
proof (induction rs arbitrary: w os)
  case Nil
  then show ?case by simp
next
  case (Cons r rs)
  let ?w1 = "w\<lparr>sensor := setitem ''_observers'' (ListV (os @ [r])) (sensor w)\<rparr>"
  have r: "register r w = (None, ?w1)"
    using Cons.prems by (rule register_ok)
  have 1: "map_of (sensor ?w1) ''_observers'' = Some (ListV (os @ [r]))"
    by (simp add: map_of_setitem)
  have 2: "get_vars ?w1 = get_vars w"
    by (rule get_vars_setitem_private) (rule private_observers)
  from Cons.IH [OF 1] r 2 show ?case by simp
qed

subsection \<open>Class objects with their methods in place\<close>

lemma getattr_update_intact:
  "methods_intact w \<Longrightarrow> getattr w (ClassObj c) ''update'' = Some (Func Observer ''update'' 2)"
  by (cases c) (simp_all add: methods_intact_def)

lemma getattr_on_change_intact:
  "methods_intact w \<Longrightarrow> getattr w (ClassObj c) ''on_change'' = Some (Func c ''on_change'' 1)"
  by (cases c) (simp_all add: methods_intact_def)

lemma on_change_ok:
  "attrs w (ClassObj c) ''temp'' = Some (IntV i) \<Longrightarrow> fst (on_change c (ClassObj c) w) = None"
proof -
  assume "attrs w (ClassObj c) ''temp'' = Some (IntV i)"
  then have "get_temp w (ClassObj c) = Some (IntV i)"
    by (rule get_temp_own)
  then show ?thesis
    by (cases c) (simp_all add: Let_def split: bool.splits)
qed

lemma methods_intact_setattr_temp:
  "methods_intact w \<Longrightarrow> methods_intact (setattr ob ''temp'' v w)"
  by (auto simp: methods_intact_def setattr_def)

lemma call_update_class_ok:
  assumes "methods_intact w"
  shows "fst (call_update (ClassObj c) [(''temp'', IntV i)] w) = None \<and>
         methods_intact (snd (call_update (ClassObj c) [(''temp'', IntV i)] w))"
proof -
  let ?w1 = "w\<lparr>calls := calls w @ [(ClassObj c, [(''temp'', IntV i)])]\<rparr>"
  let ?w2 = "setattr (ClassObj c) ''temp'' (IntV i) ?w1"
  have m1: "methods_intact ?w1"
    using assms by (simp add: methods_intact_def)
  then have m2: "methods_intact ?w2"
    by (rule methods_intact_setattr_temp)
  have t: "attrs ?w2 (ClassObj c) ''temp'' = Some (IntV i)"
    by (simp add: setattr_def)
  have u: "call_update (ClassObj c) [(''temp'', IntV i)] w = call_on_change (ClassObj c) ?w2"
    using getattr_update_intact [OF assms, of c]
    by (simp add: call_update_def update_def Let_def del: getattr.simps)
  have o: "call_on_change (ClassObj c) ?w2 = on_change c (ClassObj c) ?w2"
    using getattr_on_change_intact [OF m2, of c]
    by (simp add: call_on_change_def del: getattr.simps)
  have "fst (on_change c (ClassObj c) ?w2) = None"
    using t by (rule on_change_ok)
  moreover have "methods_intact (snd (on_change c (ClassObj c) ?w2))"
    using m2 methods_intact_cong [OF attrs_on_change [of c "ClassObj c" ?w2]] by simp
  ultimately show ?thesis
    using u o by simp
qed

lemma notify_loop_classes_ok:
  "methods_intact w \<Longrightarrow> get_vars w = [(''temp'', IntV i)] \<Longrightarrow>
   fst (notify_loop (map ClassObj cs) w) = None"
proof (induction cs arbitrary: w)
  case Nil
  show ?case by simp
next
  case (Cons c cs)
  obtain e w' where r: "call_update (ClassObj c) [(''temp'', IntV i)] w = (e, w')"
    by (cases "call_update (ClassObj c) [(''temp'', IntV i)] w")
  from call_update_class_ok [OF Cons.prems(1), of c i] r
  have e: "e = None" and m: "methods_intact w'" by simp_all
  have "sensor w' = sensor w"
    using sensor_call_update [of "ClassObj c" "[(''temp'', IntV i)]" w] r by simp
  then have g: "get_vars w' = [(''temp'', IntV i)]"
    using Cons.prems(2) by (simp add: get_vars_def)
  from Cons.IH [OF m g] r e Cons.prems(2) show ?case by simp
qed

subsection \<open>The reading reaches the observers\<close>

lemma call_update_keeps_temp:
  assumes "distinct (map fst data)" and "(''temp'', v) \<in> set data"
      and "attrs w x ''temp'' = Some v"
  shows "attrs (snd (call_update ob data w)) x ''temp'' = Some v"
proof -
  have f: "attrs (fold (\<lambda>(name, v). setattr ob name v) data w) x ''temp'' = Some v"
  proof (cases "x = ob")
    case True
    with assms(1,2) show ?thesis by (simp add: fold_setattr_in)
  next
    case False
    with assms(3) show ?thesis by (simp add: fold_setattr_other)
  qed
  from attrs_call_update [of ob data w] show ?thesis
  proof
    assume "attrs (snd (call_update ob data w)) = attrs w"
    with assms(3) show ?thesis by simp
  next
    assume "attrs (snd (call_update ob data w)) =
      attrs (fold (\<lambda>(name, v). setattr ob name v) data w)"
    with f show ?thesis by simp
  qed
qed

lemma call_update_sets_temp:
  assumes "distinct (map fst data)" and "(''temp'', v) \<in> set data"
      and "fst (call_update ob data w) = None"
  shows "attrs (snd (call_update ob data w)) ob ''temp'' = Some v"
  using assms by (simp add: attrs_call_update_ok fold_setattr_in)

lemma notify_loop_keeps_temp:
  assumes "distinct (map fst (get_vars w))" and "(''temp'', v) \<in> set (get_vars w)"
      and "attrs w x ''temp'' = Some v"
  shows "attrs (snd (notify_loop os w)) x ''temp'' = Some v"
  using assms
proof (induction os arbitrary: w)
  case Nil
  then show ?case by simp
next
  case (Cons ob os)
  obtain e w' where r: "call_update ob (get_vars w) w = (e, w')"
    by (cases "call_update ob (get_vars w) w")
  have s: "get_vars w' = get_vars w"
    using sensor_call_update [of ob "get_vars w" w] r by (simp add: get_vars_def)
  have k: "attrs w' x ''temp'' = Some v"
    using call_update_keeps_temp [OF Cons.prems(1,2,3), of ob] r by simp
  show ?case
  proof (cases e)
    case None
    with r Cons.IH [of w'] Cons.prems(1,2) s k show ?thesis by simp
  next
    case (Some err)
    with r k show ?thesis by simp
  qed
qed

lemma notify_loop_sets_temp:
  assumes "distinct (map fst (get_vars w))" and "(''temp'', v) \<in> set (get_vars w)"
      and "fst (notify_loop os w) = None" and "ob \<in> set os"
  shows "attrs (snd (notify_loop os w)) ob ''temp'' = Some v"
  using assms
proof (induction os arbitrary: w)
  case Nil
  then show ?case by simp
next
  case (Cons o1 os)
  obtain e w' where r: "call_update o1 (get_vars w) w = (e, w')"
    by (cases "call_update o1 (get_vars w) w")
  from Cons.prems(3) r have e: "e = None" and ok: "fst (notify_loop os w') = None"
    by (auto split: option.splits)
  have s: "get_vars w' = get_vars w"
    using sensor_call_update [of o1 "get_vars w" w] r by (simp add: get_vars_def)
  have d': "distinct (map fst (get_vars w'))" and m': "(''temp'', v) \<in> set (get_vars w')"
    using s Cons.prems(1,2) by simp_all
  show ?case
  proof (cases "ob \<in> set os")
    case True
    from Cons.IH [OF d' m' ok True] r e show ?thesis by simp
  next
    case False
    with Cons.prems(4) have "ob = o1" by simp
    moreover have "attrs w' o1 ''temp'' = Some v"
      using call_update_sets_temp [OF Cons.prems(1,2), of o1 w] r e by simp
    ultimately have "attrs (snd (notify_loop os w')) ob ''temp'' = Some v"
      using notify_loop_keeps_temp [OF d' m'] by simp
    with r e show ?thesis by simp
  qed
qed

lemma get_vars_after_store:
  "distinct (map fst (sensor w)) \<Longrightarrow>
   distinct (map fst (get_vars (w\<lparr>sensor := setitem ''temp'' v (sensor w)\<rparr>))) \<and>
   (''temp'', v) \<in> set (get_vars (w\<lparr>sensor := setitem ''temp'' v (sensor w)\<rparr>))"
  by (simp add: get_vars_setitem_public public_temp setitem_mem distinct_setitem
      get_vars_def distinct_map_filter)

lemma setitem_only_key:
  "d = [] \<or> (\<exists>u. d = [(k, u)]) \<Longrightarrow> setitem k v d = [(k, v)]"
  by auto


subsection \<open>An observer that is not in the registry\<close>

lemma list_remove_remove1: "x \<in> set xs \<Longrightarrow> list_remove x xs = Some (remove1 x xs)"
  by (induction xs) auto

lemma list_remove_subset: "list_remove x xs = Some ys \<Longrightarrow> set ys \<subseteq> set xs"
  by (induction xs arbitrary: ys) (auto split: if_splits)

lemma count_list_remove1:
  "x \<in> set xs \<Longrightarrow> count_list (remove1 x xs) x + 1 = count_list xs x"
  by (induction xs) auto

lemma once_then_gone: "count_list os ob = 1 \<Longrightarrow> ob \<in> set os \<and> ob \<notin> set (remove1 ob os)"
proof -
  assume c: "count_list os ob = 1"
  then have m: "ob \<in> set os"
    using count_list_0_iff [of os ob] by auto
  from count_list_remove1 [OF m] c have "count_list (remove1 ob os) ob = 0" by simp
  then have "ob \<notin> set (remove1 ob os)"
    by (rule count_list_0_iff [THEN iffD1])
  with m show ?thesis ..
qed

lemma registry_eq: "map_of (sensor w) ''_observers'' = Some (ListV os) \<Longrightarrow> registry w = os"
  by (simp add: registry_def)

lemma registry_cong: "sensor w' = sensor w \<Longrightarrow> registry w' = registry w"
  by (simp add: registry_def)

lemma registry_store_temp [simp]:
  "registry (w\<lparr>sensor := setitem ''temp'' v (sensor w)\<rparr>) = registry w"
  by (simp add: registry_def map_of_setitem)

lemma registry_register: "set (registry (snd (register ob' w))) \<subseteq> insert ob' (set (registry w))"
  by (auto simp: register_def registry_def map_of_setitem split: option.splits val.splits)

lemma registry_remove: "set (registry (snd (remove ob' w))) \<subseteq> set (registry w)"
  using list_remove_subset
  by (fastforce simp: remove_def registry_def map_of_setitem split: option.splits val.splits)

lemma calls_notify_new:
  "\<exists>new. calls (snd (notify w)) = calls w @ new \<and> fst ` set new \<subseteq> set (registry w)"
proof (cases "\<exists>os. map_of (sensor w) ''_observers'' = Some (ListV os)")
  case True
  then obtain os where r: "map_of (sensor w) ''_observers'' = Some (ListV os)" by blast
  from calls_notify_loop_prefix [of os w] obtain k where
    k: "calls (snd (notify_loop os w)) = calls w @ map (\<lambda>ob. (ob, get_vars w)) (take k os)"
    by blast
  have "fst ` set (map (\<lambda>ob. (ob, get_vars w)) (take k os)) \<subseteq> set os"
    by (auto dest: in_set_takeD)
  with r k show ?thesis
    by (auto simp: notify_def registry_def)
next
  case False
  then have "calls (snd (notify w)) = calls w"
    by (auto simp: notify_def split: option.splits val.splits)
  then show ?thesis by simp
qed

lemma step_without:
  assumes "ob \<notin> set (registry w)" and "x \<noteq> Register ob"
  shows "ob \<notin> set (registry (snd (step x w))) \<and>
         (\<exists>new. calls (snd (step x w)) = calls w @ new \<and> ob \<notin> fst ` set new)"
proof (cases x)
  case (Register ob')
  with assms(2) have "ob' \<noteq> ob" by simp
  with assms(1) registry_register [of ob' w] have "ob \<notin> set (registry (snd (register ob' w)))"
    by auto
  moreover have "calls (snd (register ob' w)) = calls w"
    by (auto simp: register_def split: option.splits val.splits)
  ultimately show ?thesis using Register by simp
next
  case (Remove ob')
  from assms(1) registry_remove [of ob' w] have "ob \<notin> set (registry (snd (remove ob' w)))"
    by auto
  moreover have "calls (snd (remove ob' w)) = calls w"
    by (auto simp: remove_def split: option.splits val.splits)
  ultimately show ?thesis using Remove by simp
next
  case Notify
  from calls_notify_new [of w] obtain new where
    n: "calls (snd (notify w)) = calls w @ new" "fst ` set new \<subseteq> set (registry w)" by blast
  with assms(1) have "ob \<notin> fst ` set new" by auto
  moreover have "registry (snd (notify w)) = registry w"
    by (rule registry_cong) (rule sensor_notify)
  ultimately show ?thesis using Notify n(1) assms(1) by simp
next
  case (ChangeMeasurements v)
  let ?w1 = "w\<lparr>sensor := setitem ''temp'' v (sensor w)\<rparr>"
  from calls_notify_new [of ?w1] obtain new where
    n: "calls (snd (notify ?w1)) = calls w @ new" "fst ` set new \<subseteq> set (registry w)"
    by auto
  with assms(1) have "ob \<notin> fst ` set new" by auto
  moreover have "registry (snd (notify ?w1)) = registry ?w1"
    by (rule registry_cong) (rule sensor_notify)
  ultimately show ?thesis
    using ChangeMeasurements n(1) assms(1) by (simp add: change_measurements_def)
qed

lemma run_without:
  "ob \<notin> set (registry w) \<Longrightarrow> Register ob \<notin> set ops \<Longrightarrow>
   \<exists>new. calls (run ops w) = calls w @ new \<and> ob \<notin> fst ` set new"
proof (induction ops arbitrary: w)
  case Nil
  then show ?case by simp
next
  case (Cons x ops)
  from Cons.prems have x: "x \<noteq> Register ob" and rest: "Register ob \<notin> set ops" by auto
  from step_without [OF Cons.prems(1) x] obtain n1 where
    j: "ob \<notin> set (registry (snd (step x w)))"
    and c1: "calls (snd (step x w)) = calls w @ n1" "ob \<notin> fst ` set n1" by blast
  from Cons.IH [OF j rest] obtain n2 where
    c2: "calls (run ops (snd (step x w))) = calls (snd (step x w)) @ n2" "ob \<notin> fst ` set n2"
    by blast
  from c1 c2 have "calls (run (x # ops) w) = calls w @ (n1 @ n2)" "ob \<notin> fst ` set (n1 @ n2)"
    by auto
  then show ?case by blast
qed

subsection \<open>The sensor of the program\<close>

lemma startswith_underscore: "startswith k ''_'' = (\<exists>rest. k = CHR ''_'' # rest)"
  by (cases k) (auto simp: startswith_def)

lemma get_vars_private_free: "k \<in> fst ` set (get_vars w) \<Longrightarrow> \<not> startswith k ''_''"
  by (auto simp: get_vars_def)

lemma calls_notify_prefix:
  "\<exists>k. k \<le> length (registry w) \<and>
       calls (snd (notify w)) = calls w @ map (\<lambda>ob. (ob, get_vars w)) (take k (registry w))"
proof (cases "\<exists>os. map_of (sensor w) ''_observers'' = Some (ListV os)")
  case True
  then obtain os where r: "map_of (sensor w) ''_observers'' = Some (ListV os)" by blast
  from calls_notify_loop_prefix [of os w] r show ?thesis
    by (simp add: notify_def registry_def)
next
  case False
  then have "calls (snd (notify w)) = calls w"
    by (auto simp: notify_def split: option.splits val.splits)
  then have "0 \<le> length (registry w) \<and>
       calls (snd (notify w)) = calls w @ map (\<lambda>ob. (ob, get_vars w)) (take 0 (registry w))"
    by simp
  then show ?thesis ..
qed

lemma sensor_register:
  "sensor (snd (register ob w)) = sensor w \<or>
   (\<exists>x. sensor (snd (register ob w)) = setitem ''_observers'' x (sensor w))"
  by (auto simp: register_def split: option.splits val.splits)

lemma sensor_remove:
  "sensor (snd (remove ob w)) = sensor w \<or>
   (\<exists>x. sensor (snd (remove ob w)) = setitem ''_observers'' x (sensor w))"
  by (auto simp: remove_def split: option.splits val.splits)

lemma sensor_change_measurements:
  "sensor (snd (change_measurements v w)) = setitem ''temp'' v (sensor w)"
  by (simp add: change_measurements_def sensor_notify)

lemma keys_store_registry:
  "map fst d = [''_observers''] \<or> map fst d = [''_observers'', ''temp''] \<Longrightarrow>
   map fst (setitem ''_observers'' x d) = map fst d"
  by (auto simp: keys_setitem)

lemma keys_store_temp:
  "map fst d = [''_observers''] \<or> map fst d = [''_observers'', ''temp''] \<Longrightarrow>
   map fst (setitem ''temp'' v d) = [''_observers'', ''temp'']"
  by (auto simp: keys_setitem)

lemma keys_step:
  assumes "map fst (sensor w) = [''_observers''] \<or>
           map fst (sensor w) = [''_observers'', ''temp'']"
  shows "map fst (sensor (snd (step x w))) = [''_observers''] \<or>
         map fst (sensor (snd (step x w))) = [''_observers'', ''temp'']"
proof (cases x)
  case (Register ob)
  from sensor_register [of ob w] keys_store_registry [OF assms] assms Register
  show ?thesis by auto
next
  case (Remove ob)
  from sensor_remove [of ob w] keys_store_registry [OF assms] assms Remove
  show ?thesis by auto
next
  case Notify
  with assms show ?thesis by (simp add: sensor_notify)
next
  case (ChangeMeasurements v)
  with keys_store_temp [OF assms] show ?thesis
    by (simp add: sensor_change_measurements)
qed

lemma keys_run:
  "map fst (sensor w) = [''_observers''] \<or> map fst (sensor w) = [''_observers'', ''temp'']
   \<Longrightarrow> map fst (sensor (run ops w)) = [''_observers''] \<or>
       map fst (sensor (run ops w)) = [''_observers'', ''temp'']"
proof (induction ops arbitrary: w)
  case Nil
  then show ?case by simp
next
  case (Cons x ops)
  from keys_step [OF Cons.prems] have
    "map fst (sensor (snd (step x w))) = [''_observers''] \<or>
     map fst (sensor (snd (step x w))) = [''_observers'', ''temp'']" .
  from Cons.IH [OF this] show ?case by simp
qed

lemma public_of_program_sensor:
  assumes "map fst d = [''_observers''] \<or> map fst d = [''_observers'', ''temp'']"
  shows "[(key, x) \<leftarrow> setitem ''temp'' v d. \<not> startswith key ''_''] = [(''temp'', v)]"
proof -
  from assms have k: "map fst (setitem ''temp'' v d) = [''_observers'', ''temp'']"
    by (rule keys_store_temp)
  have m: "(''temp'', v) \<in> set (setitem ''temp'' v d)"
    by (rule setitem_mem)
  from k obtain a b where "setitem ''temp'' v d = [(''_observers'', a), (''temp'', b)]"
    by (auto simp: map_eq_Cons_conv)
  with m have "setitem ''temp'' v d = [(''_observers'', a), (''temp'', v)]"
    by auto
  then show ?thesis
    by (simp add: startswith_def)
qed

lemma get_vars_after_run:
  "get_vars (snd (change_measurements v (run ops (start r)))) = [(''temp'', v)]"
proof -
  have "map fst (sensor (start r)) = [''_observers''] \<or>
        map fst (sensor (start r)) = [''_observers'', ''temp'']"
    by (simp add: start_def new_sensor_def)
  then have "map fst (sensor (run ops (start r))) = [''_observers''] \<or>
        map fst (sensor (run ops (start r))) = [''_observers'', ''temp'']"
    by (rule keys_run)
  then show ?thesis
    by (simp add: get_vars_def sensor_change_measurements public_of_program_sensor)
qed

lemma driver_setup_result:
  "driver_setup r =
     (None, (start r)\<lparr>sensor :=
        [(''_observers'', ListV [ClassObj CpuController, ClassObj TempDisplay])]\<rparr>)"
  by (simp add: driver_setup_def and_then_def register_def start_def new_sensor_def)

lemma driver_measurement:
  "fst (change_measurements (IntV i) (snd (driver_setup r))) = None \<and>
   calls (snd (change_measurements (IntV i) (snd (driver_setup r)))) =
     [(ClassObj CpuController, [(''temp'', IntV i)]),
      (ClassObj TempDisplay, [(''temp'', IntV i)])]"
proof -
  let ?w1 = "(start r)\<lparr>sensor :=
      [(''_observers'', ListV [ClassObj CpuController, ClassObj TempDisplay]),
       (''temp'', IntV i)]\<rparr>"
  have c: "change_measurements (IntV i) (snd (driver_setup r)) =
      notify_loop (map ClassObj [CpuController, TempDisplay]) ?w1"
    by (simp add: driver_setup_result change_measurements_def notify_def)
  have m: "methods_intact ?w1"
    by (simp add: methods_intact_def start_def)
  have g: "get_vars ?w1 = [(''temp'', IntV i)]"
    by (simp add: get_vars_def startswith_def)
  have ok: "fst (notify_loop (map ClassObj [CpuController, TempDisplay]) ?w1) = None"
    using m g by (rule notify_loop_classes_ok)
  have "calls ?w1 = []" by (simp add: start_def)
  with calls_notify_loop_ok [OF ok] g
  have "calls (snd (notify_loop (map ClassObj [CpuController, TempDisplay]) ?w1)) =
     [(ClassObj CpuController, [(''temp'', IntV i)]),
      (ClassObj TempDisplay, [(''temp'', IntV i)])]"
    by simp
  with ok c show ?thesis by simp
qed


subsection \<open>Calls through an instance\<close>









lemma on_change_ok_any:
  assumes "attrs w (ClassObj c) ''temp'' = Some v"
      and "c = CpuController \<longrightarrow> (\<exists>i. v = IntV i)"
  shows "fst (on_change c (ClassObj c) w) = None"
proof -
  from assms(1) have "get_temp w (ClassObj c) = Some v"
    by (rule get_temp_own)
  with assms(2) show ?thesis
    by (cases c) (auto simp: Let_def split: bool.splits)
qed

lemma call_update_class_any:
  assumes "methods_intact w" and "c = CpuController \<longrightarrow> (\<exists>i. v = IntV i)"
  shows "fst (call_update (ClassObj c) [(''temp'', v)] w) = None \<and>
         methods_intact (snd (call_update (ClassObj c) [(''temp'', v)] w))"
proof -
  let ?w1 = "w\<lparr>calls := calls w @ [(ClassObj c, [(''temp'', v)])]\<rparr>"
  let ?w2 = "setattr (ClassObj c) ''temp'' v ?w1"
  have m1: "methods_intact ?w1"
    using assms(1) by (simp add: methods_intact_def)
  then have m2: "methods_intact ?w2"
    by (rule methods_intact_setattr_temp)
  have t: "attrs ?w2 (ClassObj c) ''temp'' = Some v"
    by (simp add: setattr_def)
  have u: "call_update (ClassObj c) [(''temp'', v)] w = call_on_change (ClassObj c) ?w2"
    using getattr_update_intact [OF assms(1), of c]
    by (simp add: call_update_def update_def Let_def del: getattr.simps)
  have o: "call_on_change (ClassObj c) ?w2 = on_change c (ClassObj c) ?w2"
    using getattr_on_change_intact [OF m2, of c]
    by (simp add: call_on_change_def del: getattr.simps)
  have "fst (on_change c (ClassObj c) ?w2) = None"
    using t assms(2) by (rule on_change_ok_any)
  moreover have "methods_intact (snd (on_change c (ClassObj c) ?w2))"
    using m2 methods_intact_cong [OF attrs_on_change [of c "ClassObj c" ?w2]] by simp
  ultimately show ?thesis
    using u o by simp
qed

lemma notify_loop_classes_any:
  "methods_intact w \<Longrightarrow> get_vars w = [(''temp'', v)] \<Longrightarrow>
   CpuController \<in> set cs \<longrightarrow> (\<exists>i. v = IntV i) \<Longrightarrow>
   fst (notify_loop (map ClassObj cs) w) = None"
proof (induction cs arbitrary: w)
  case Nil
  show ?case by simp
next
  case (Cons c cs)
  obtain e w' where r: "call_update (ClassObj c) [(''temp'', v)] w = (e, w')"
    by (cases "call_update (ClassObj c) [(''temp'', v)] w")
  from Cons.prems(3) have c: "c = CpuController \<longrightarrow> (\<exists>i. v = IntV i)"
    and rest: "CpuController \<in> set cs \<longrightarrow> (\<exists>i. v = IntV i)" by auto
  from call_update_class_any [OF Cons.prems(1) c] r
  have e: "e = None" and m: "methods_intact w'" by simp_all
  have "sensor w' = sensor w"
    using sensor_call_update [of "ClassObj c" "[(''temp'', v)]" w] r by simp
  then have g: "get_vars w' = [(''temp'', v)]"
    using Cons.prems(2) by (simp add: get_vars_def)
  from Cons.IH [OF m g rest] r e Cons.prems(2) show ?case by simp
qed

section \<open>Notification order\<close>

text \<open>
  C1 (amended). Take a sensor whose public attributes are exactly a numeric \<^verbatim>\<open>temp\<close>
  (its state after \<^verbatim>\<open>change_measurements\<close> with a number) and whose registry holds
  observer classes with their methods in place, and register further observer classes
  with \<^verbatim>\<open>register\<close>, in any number and with repetitions. Then the registry is the old one
  followed by the new entries in the order of their registration, and a single call of
  \<^verbatim>\<open>notify()\<close> returns normally and has entered \<^verbatim>\<open>update\<close> exactly once for each entry
  of the registry, in that order, each time with the snapshot: a class registered twice
  is notified twice, in the order of its two registrations.
\<close>

theorem notify_updates_each_in_order:
  assumes "map_of (sensor w) ''_observers'' = Some (ListV (map ClassObj cs))"
      and "get_vars w = [(''temp'', IntV i)]"
      and "methods_intact w"
  shows "map_of (sensor (register_all (map ClassObj ds) w)) ''_observers'' =
           Some (ListV (map ClassObj (cs @ ds))) \<and>
         fst (notify (register_all (map ClassObj ds) w)) = None \<and>
         calls (snd (notify (register_all (map ClassObj ds) w))) =
           calls w @ map (\<lambda>c. (ClassObj c, [(''temp'', IntV i)])) (cs @ ds)"
proof -
  let ?w = "register_all (map ClassObj ds) w"
  from register_all_facts [OF assms(1), of "map ClassObj ds"]
  have reg: "map_of (sensor ?w) ''_observers'' = Some (ListV (map ClassObj (cs @ ds)))"
    and g: "get_vars ?w = [(''temp'', IntV i)]"
    and a: "attrs ?w = attrs w" and c: "calls ?w = calls w"
    using assms(2) by simp_all
  have m: "methods_intact ?w"
    using assms(3) methods_intact_cong [OF a] by simp
  have ok: "fst (notify_loop (map ClassObj (cs @ ds)) ?w) = None"
    using m g by (rule notify_loop_classes_ok)
  from calls_notify_loop_ok [OF ok] g c
  have "calls (snd (notify_loop (map ClassObj (cs @ ds)) ?w)) =
          calls w @ map (\<lambda>c. (ClassObj c, [(''temp'', IntV i)])) (cs @ ds)"
    by (simp add: comp_def)
  with reg ok show ?thesis
    by (simp add: notify_def)
qed

theorem notify_updates_each_in_order_witness:
  "map_of (sensor both_at_60) ''_observers'' =
     Some (ListV (map ClassObj [CpuController, TempDisplay])) \<and>
   get_vars both_at_60 = [(''temp'', IntV 60)] \<and>
   methods_intact both_at_60 \<and>
   fst (notify (register_all (map ClassObj [CpuController]) both_at_60)) = None \<and>
   calls (snd (notify (register_all (map ClassObj [CpuController]) both_at_60))) =
     [(ClassObj CpuController, [(''temp'', IntV 60)]),
      (ClassObj TempDisplay, [(''temp'', IntV 60)]),
      (ClassObj CpuController, [(''temp'', IntV 60)])]"
proof -
  have h1: "map_of (sensor both_at_60) ''_observers'' =
     Some (ListV (map ClassObj [CpuController, TempDisplay]))"
    by code_simp
  have h2: "get_vars both_at_60 = [(''temp'', IntV 60)]"
    by code_simp
  have h3: "methods_intact both_at_60"
    by code_simp
  have c: "calls both_at_60 = []"
    by code_simp
  from notify_updates_each_in_order [OF h1 h2 h3, of "[CpuController]"] c h1 h2 h3
  show ?thesis
    by simp
qed


text \<open>
  C1 as stated fails. On a new sensor with both classes registered and no reading yet,
  \<^verbatim>\<open>notify()\<close> enters \<^verbatim>\<open>update\<close> for \<^verbatim>\<open>CpuController\<close>, whose \<^verbatim>\<open>on_change\<close> reads the
  missing \<^verbatim>\<open>temp\<close> and raises; \<^verbatim>\<open>TempDisplay\<close> is never updated.
\<close>

theorem notify_aborts_counterexample:
  "map_of (sensor both_registered) ''_observers'' =
     Some (ListV [ClassObj CpuController, ClassObj TempDisplay]) \<and>
   fst (notify both_registered) = Some AttributeError \<and>
   map fst (calls (snd (notify both_registered))) = [ClassObj CpuController]"
proof -
  have "map_of (sensor both_registered) ''_observers'' =
     Some (ListV [ClassObj CpuController, ClassObj TempDisplay])"
    by code_simp
  moreover have "fst (notify both_registered) = Some AttributeError"
    by code_simp
  moreover have "map fst (calls (snd (notify both_registered))) = [ClassObj CpuController]"
    by code_simp
  ultimately show ?thesis by simp
qed

section \<open>The reading reaches every observer\<close>

text \<open>
  C2. For every value \<open>v\<close> and every registry of a sensor (a dictionary: its keys are
  distinct), once \<^verbatim>\<open>change_measurements(v)\<close> has returned, reading \<^verbatim>\<open>temp\<close> on any
  registered observer gives \<open>v\<close>. And it does return when the registry holds observer
  classes with their methods in place, the sensor has no public attribute other than
  \<^verbatim>\<open>temp\<close>, and \<open>v\<close> is an integer or \<^verbatim>\<open>CpuController\<close> is not registered.
\<close>

theorem change_measurements_pushes_temp:
  assumes "map_of (sensor w) ''_observers'' = Some (ListV os)"
      and "distinct (map fst (sensor w))"
  shows "(fst (change_measurements v w) = None \<longrightarrow>
            (\<forall>ob\<in>set os. get_temp (snd (change_measurements v w)) ob = Some v)) \<and>
         (methods_intact w \<and>
          (\<exists>cs. os = map ClassObj cs \<and> (CpuController \<in> set cs \<longrightarrow> (\<exists>i. v = IntV i))) \<and>
          (get_vars w = [] \<or> (\<exists>u. get_vars w = [(''temp'', u)])) \<longrightarrow>
            fst (change_measurements v w) = None)"
proof -
  let ?w1 = "w\<lparr>sensor := setitem ''temp'' v (sensor w)\<rparr>"
  have reg: "map_of (sensor ?w1) ''_observers'' = Some (ListV os)"
    using assms(1) by (simp add: map_of_setitem)
  then have n: "change_measurements v w = notify_loop os ?w1"
    by (simp add: change_measurements_def notify_def)
  from get_vars_after_store [OF assms(2), of v]
  have d: "distinct (map fst (get_vars ?w1))" and t: "(''temp'', v) \<in> set (get_vars ?w1)"
    by simp_all
  have 1: "fst (change_measurements v w) = None \<longrightarrow>
            (\<forall>ob\<in>set os. get_temp (snd (change_measurements v w)) ob = Some v)"
  proof (intro impI ballI)
    fix ob
    assume "fst (change_measurements v w) = None" and "ob \<in> set os"
    with n have "attrs (snd (notify_loop os ?w1)) ob ''temp'' = Some v"
      using notify_loop_sets_temp [OF d t] by simp
    then show "get_temp (snd (change_measurements v w)) ob = Some v"
      using n by (simp add: get_temp_own)
  qed
  have 2: "methods_intact w \<and>
          (\<exists>cs. os = map ClassObj cs \<and> (CpuController \<in> set cs \<longrightarrow> (\<exists>i. v = IntV i))) \<and>
          (get_vars w = [] \<or> (\<exists>u. get_vars w = [(''temp'', u)])) \<longrightarrow>
            fst (change_measurements v w) = None"
  proof (intro impI, elim conjE exE)
    fix cs
    assume m: "methods_intact w" and os: "os = map ClassObj cs"
      and v: "CpuController \<in> set cs \<longrightarrow> (\<exists>i. v = IntV i)"
      and g: "get_vars w = [] \<or> (\<exists>u. get_vars w = [(''temp'', u)])"
    have m1: "methods_intact ?w1"
      using m by (simp add: methods_intact_def)
    have "get_vars ?w1 = setitem ''temp'' v (get_vars w)"
      by (rule get_vars_setitem_public) (rule public_temp)
    with g have g1: "get_vars ?w1 = [(''temp'', v)]"
      by (simp add: setitem_only_key)
    from notify_loop_classes_any [OF m1 g1 v] n os
    show "fst (change_measurements v w) = None" by simp
  qed
  from 1 2 show ?thesis ..
qed

theorem change_measurements_pushes_temp_witness:
  "map_of (sensor both_registered) ''_observers'' =
     Some (ListV [ClassObj CpuController, ClassObj TempDisplay]) \<and>
   distinct (map fst (sensor both_registered)) \<and>
   fst (change_measurements (IntV 95) both_registered) = None \<and>
   get_temp (snd (change_measurements (IntV 95) both_registered)) (ClassObj CpuController) =
     Some (IntV 95) \<and>
   get_temp (snd (change_measurements (IntV 95) both_registered)) (ClassObj TempDisplay) =
     Some (IntV 95)"
proof -
  have h1: "map_of (sensor both_registered) ''_observers'' =
     Some (ListV [ClassObj CpuController, ClassObj TempDisplay])"
    by code_simp
  have h2: "distinct (map fst (sensor both_registered))"
    by code_simp
  have h3: "fst (change_measurements (IntV 95) both_registered) = None"
    by code_simp
  from change_measurements_pushes_temp [OF h1 h2, of "IntV 95"] h3
  have "\<forall>ob\<in>set [ClassObj CpuController, ClassObj TempDisplay].
          get_temp (snd (change_measurements (IntV 95) both_registered)) ob = Some (IntV 95)"
    by blast
  with h1 h2 h3 show ?thesis
    by simp
qed

section \<open>What the observers print\<close>

text \<open>
  C3. For every integer temperature \<open>t\<close> that the observer holds, \<^verbatim>\<open>on_change\<close> of
  \<^verbatim>\<open>CpuController\<close> returns normally and prints a blank line, the label, and then
  \<^verbatim>\<open>Panic!\<close> if \<open>t > 90\<close> and \<^verbatim>\<open>Everything under control\<close> otherwise; so at \<open>t = 90\<close> it
  prints \<^verbatim>\<open>Everything under control\<close>.
\<close>

theorem controller_panics_above_90:
  assumes "get_temp w self = Some (IntV t)"
  shows "on_change CpuController self w =
           (None, w\<lparr>stdout := stdout w @
              [''\<newline>\<newline>'', ''CpuController: '',
               if 90 < t then ''Panic!\<newline>'' else ''Everything under control\<newline>'']\<rparr>)"
  using assms by (simp add: Let_def py_print_def)

theorem controller_panics_above_90_witness:
  "get_temp controller_at_90 (ClassObj CpuController) = Some (IntV 90) \<and>
   on_change CpuController (ClassObj CpuController) controller_at_90 =
     (None, controller_at_90\<lparr>stdout := stdout controller_at_90 @
        [''\<newline>\<newline>'', ''CpuController: '', ''Everything under control\<newline>'']\<rparr>)"
proof -
  have h: "get_temp controller_at_90 (ClassObj CpuController) = Some (IntV 90)"
    by code_simp
  from controller_panics_above_90 [OF h] h show ?thesis
    by simp
qed


text \<open>
  C5. For every integer temperature \<open>t\<close> that the observer holds, \<^verbatim>\<open>on_change\<close> of
  \<^verbatim>\<open>TempDisplay\<close> returns normally and prints the label and then the decimal text of
  \<open>t\<close> followed by \<^verbatim>\<open> Deg\<close> and the end of the line; the decimal text denotes \<open>t\<close>
  itself. For 73 the line is \<^verbatim>\<open>73 Deg\<close>.
\<close>

theorem display_prints_value_and_unit:
  assumes "get_temp w self = Some (IntV t)"
  shows "on_change TempDisplay self w =
           (None, w\<lparr>stdout := stdout w @ [''Display: '', str_int t @ '' Deg'' @ ''\<newline>'']\<rparr>) \<and>
         decimal_int (str_int t) = t"
  using assms by (simp add: Let_def py_print_def decimal_int_str_int)

theorem display_prints_value_and_unit_witness:
  "get_temp display_at_73 (ClassObj TempDisplay) = Some (IntV 73) \<and>
   on_change TempDisplay (ClassObj TempDisplay) display_at_73 =
     (None, display_at_73\<lparr>stdout := stdout display_at_73 @ [''Display: '', ''73 Deg\<newline>'']\<rparr>)"
proof -
  have h: "get_temp display_at_73 (ClassObj TempDisplay) = Some (IntV 73)"
    by code_simp
  have s: "str_int 73 @ '' Deg'' @ ''\<newline>'' = ''73 Deg\<newline>''"
    by code_simp
  from display_prints_value_and_unit [OF h] h s show ?thesis
    by simp
qed

section \<open>Removal\<close>

text \<open>
  C6. For every registry and every observer, \<^verbatim>\<open>remove\<close> of an observer that is absent
  raises \<^verbatim>\<open>ValueError\<close> and leaves the whole state, the registry included, as it was;
  \<^verbatim>\<open>remove\<close> of an observer that is present returns normally and takes out its first
  occurrence, keeping every other entry in place.
\<close>

theorem remove_first_or_fail:
  assumes "map_of (sensor w) ''_observers'' = Some (ListV os)"
  shows "(ob \<notin> set os \<longrightarrow> remove ob w = (Some ValueError, w)) \<and>
         (\<forall>pre post. os = pre @ ob # post \<and> ob \<notin> set pre \<longrightarrow>
            remove ob w =
              (None, w\<lparr>sensor := setitem ''_observers'' (ListV (pre @ post)) (sensor w)\<rparr>) \<and>
            map_of (sensor (snd (remove ob w))) ''_observers'' = Some (ListV (pre @ post)))"
  using assms
  by (auto simp: remove_def list_remove_absent list_remove_first map_of_setitem)

theorem remove_first_or_fail_witness:
  "map_of (sensor twice_registered) ''_observers'' =
     Some (ListV [ClassObj CpuController, ClassObj CpuController]) \<and>
   remove (ClassObj TempDisplay) twice_registered = (Some ValueError, twice_registered) \<and>
   map_of (sensor (snd (remove (ClassObj CpuController) twice_registered))) ''_observers'' =
     Some (ListV [ClassObj CpuController])"
proof -
  have h: "map_of (sensor twice_registered) ''_observers'' =
     Some (ListV ([] @ ClassObj CpuController # [ClassObj CpuController]))"
    by code_simp
  have a: "ClassObj TempDisplay \<notin> set ([] @ ClassObj CpuController # [ClassObj CpuController])"
    by simp
  from remove_first_or_fail [OF h, of "ClassObj TempDisplay"] a
  have 1: "remove (ClassObj TempDisplay) twice_registered = (Some ValueError, twice_registered)"
    by blast
  from remove_first_or_fail [OF h, of "ClassObj CpuController"]
  have 2: "map_of (sensor (snd (remove (ClassObj CpuController) twice_registered))) ''_observers'' =
     Some (ListV ([] @ [ClassObj CpuController]))"
    by (metis empty_iff empty_set)
  from h 1 2 show ?thesis by simp
qed

section \<open>What leaves the registry alone\<close>

text \<open>
  C7. For every state, \<^verbatim>\<open>notify()\<close> and the \<^verbatim>\<open>update\<close> and \<^verbatim>\<open>on_change\<close> calls it
  makes leave the whole dictionary of the sensor, the registry in it, as it was; and
  \<^verbatim>\<open>change_measurements(v)\<close> changes the dictionary only by storing \<open>v\<close> under
  \<^verbatim>\<open>temp\<close>, so the registry is the same after it.
\<close>

theorem only_register_and_remove_change_registry:
  "sensor (snd (notify w)) = sensor w \<and>
   sensor (snd (call_update ob data w)) = sensor w \<and>
   sensor (snd (update ob data w)) = sensor w \<and>
   sensor (snd (call_on_change ob w)) = sensor w \<and>
   sensor (snd (on_change c ob w)) = sensor w \<and>
   sensor (snd (change_measurements v w)) = setitem ''temp'' v (sensor w) \<and>
   map_of (sensor (snd (change_measurements v w))) = (map_of (sensor w))(''temp'' \<mapsto> v) \<and>
   map_of (sensor (snd (change_measurements v w))) ''_observers'' =
     map_of (sensor w) ''_observers''"
  by (simp add: sensor_notify sensor_call_update sensor_update sensor_call_on_change
      sensor_on_change change_measurements_def map_of_setitem)

section \<open>An empty registry\<close>

text \<open>
  C9. With no observer registered, \<^verbatim>\<open>change_measurements(v)\<close> returns normally for every
  \<open>v\<close>, prints nothing, and changes nothing but the sensor's \<^verbatim>\<open>temp\<close>.
\<close>

theorem no_observers_no_output:
  assumes "map_of (sensor w) ''_observers'' = Some (ListV [])"
  shows "change_measurements v w = (None, w\<lparr>sensor := setitem ''temp'' v (sensor w)\<rparr>) \<and>
         stdout (snd (change_measurements v w)) = stdout w"
  using assms by (simp add: change_measurements_def notify_def map_of_setitem)

theorem no_observers_no_output_witness:
  "map_of (sensor (start plain_repr)) ''_observers'' = Some (ListV []) \<and>
   fst (change_measurements (IntV 60) (start plain_repr)) = None \<and>
   stdout (snd (change_measurements (IntV 60) (start plain_repr))) = []"
proof -
  have h: "map_of (sensor (start plain_repr)) ''_observers'' = Some (ListV [])"
    by (simp add: start_def new_sensor_def)
  have s: "stdout (start plain_repr) = []"
    by (simp add: start_def)
  from no_observers_no_output [OF h, of "IntV 60"] h s show ?thesis
    by simp
qed

section \<open>After a removal\<close>

text \<open>
  C4 (amended). For every registry in which the observer \<open>ob\<close> occurs exactly once,
  \<^verbatim>\<open>remove(ob)\<close> returns normally and leaves the registry without \<open>ob\<close>, every other
  entry in place; after it, no sequence of \<^verbatim>\<open>notify\<close>, \<^verbatim>\<open>change_measurements\<close>,
  \<^verbatim>\<open>remove\<close> and \<^verbatim>\<open>register\<close> calls that does not register \<open>ob\<close> again enters
  \<^verbatim>\<open>update\<close> for \<open>ob\<close>. On a sensor with a numeric \<^verbatim>\<open>temp\<close> and observer classes
  registered, the next \<^verbatim>\<open>notify()\<close> returns normally and updates exactly the remaining
  entries, in order.
\<close>

theorem removed_once_not_notified:
  assumes "map_of (sensor w) ''_observers'' = Some (ListV os)"
      and "count_list os ob = 1"
      and "Register ob \<notin> set ops"
  shows "fst (remove ob w) = None \<and>
         registry (snd (remove ob w)) = remove1 ob os \<and>
         ob \<notin> set (registry (snd (remove ob w))) \<and>
         (\<exists>new. calls (run ops (snd (remove ob w))) = calls w @ new \<and> ob \<notin> fst ` set new) \<and>
         (methods_intact w \<and> (\<exists>cs. os = map ClassObj cs) \<and>
          (\<exists>i. get_vars w = [(''temp'', IntV i)]) \<longrightarrow>
            fst (notify (snd (remove ob w))) = None \<and>
            calls (snd (notify (snd (remove ob w)))) =
              calls w @ map (\<lambda>ob'. (ob', get_vars w)) (remove1 ob os))"
proof -
  let ?w1 = "w\<lparr>sensor := setitem ''_observers'' (ListV (remove1 ob os)) (sensor w)\<rparr>"
  from once_then_gone [OF assms(2)] have m: "ob \<in> set os" and g: "ob \<notin> set (remove1 ob os)"
    by simp_all
  have r: "remove ob w = (None, ?w1)"
    using assms(1) m by (simp add: remove_def list_remove_remove1)
  have reg: "map_of (sensor ?w1) ''_observers'' = Some (ListV (remove1 ob os))"
    by (simp add: map_of_setitem)
  then have rg: "registry ?w1 = remove1 ob os"
    by (rule registry_eq)
  have c: "calls ?w1 = calls w" by simp
  from run_without [of ob ?w1 ops] rg g assms(3) c
  have 4: "\<exists>new. calls (run ops ?w1) = calls w @ new \<and> ob \<notin> fst ` set new"
    by simp
  have 5: "methods_intact w \<and> (\<exists>cs. os = map ClassObj cs) \<and>
          (\<exists>i. get_vars w = [(''temp'', IntV i)]) \<longrightarrow>
            fst (notify ?w1) = None \<and>
            calls (snd (notify ?w1)) =
              calls w @ map (\<lambda>ob'. (ob', get_vars w)) (remove1 ob os)"
  proof (intro impI, elim conjE exE)
    fix cs i
    assume mi: "methods_intact w" and os: "os = map ClassObj cs"
      and gv: "get_vars w = [(''temp'', IntV i)]"
    have m1: "methods_intact ?w1"
      using mi by (simp add: methods_intact_def)
    have g1: "get_vars ?w1 = [(''temp'', IntV i)]"
      using gv get_vars_setitem_private [OF private_observers, where w = w] by simp
    have "set (remove1 ob os) \<subseteq> range ClassObj"
      using os set_remove1_subset [of ob os] by auto
    then have "\<exists>ds. remove1 ob os = map ClassObj ds"
      by (induction "remove1 ob os" arbitrary: os) (auto simp: ex_map_conv)
    then obtain ds where ds: "remove1 ob os = map ClassObj ds" ..
    from notify_loop_classes_ok [OF m1 g1, of ds] ds
    have ok: "fst (notify_loop (remove1 ob os) ?w1) = None" by simp
    from calls_notify_loop_ok [OF ok] g1 gv
    have "calls (snd (notify_loop (remove1 ob os) ?w1)) =
            calls w @ map (\<lambda>ob'. (ob', get_vars w)) (remove1 ob os)"
      by simp
    with ok reg show "fst (notify ?w1) = None \<and>
            calls (snd (notify ?w1)) =
              calls w @ map (\<lambda>ob'. (ob', get_vars w)) (remove1 ob os)"
      by (simp add: notify_def)
  qed
  from r rg g 4 5 show ?thesis by simp
qed

theorem removed_once_not_notified_witness:
  "map_of (sensor both_at_60) ''_observers'' =
     Some (ListV [ClassObj CpuController, ClassObj TempDisplay]) \<and>
   count_list [ClassObj CpuController, ClassObj TempDisplay] (ClassObj CpuController) = 1 \<and>
   Register (ClassObj CpuController) \<notin> set [Notify, ChangeMeasurements (IntV 95)] \<and>
   fst (remove (ClassObj CpuController) both_at_60) = None \<and>
   registry (snd (remove (ClassObj CpuController) both_at_60)) = [ClassObj TempDisplay] \<and>
   calls (snd (notify (snd (remove (ClassObj CpuController) both_at_60)))) =
     [(ClassObj TempDisplay, [(''temp'', IntV 60)])]"
proof -
  have h1: "map_of (sensor both_at_60) ''_observers'' =
     Some (ListV [ClassObj CpuController, ClassObj TempDisplay])"
    by code_simp
  have h2: "count_list [ClassObj CpuController, ClassObj TempDisplay] (ClassObj CpuController) = 1"
    by simp
  have h3: "Register (ClassObj CpuController) \<notin> set [Notify, ChangeMeasurements (IntV 95)]"
    by simp
  have m: "methods_intact both_at_60" by code_simp
  have g: "get_vars both_at_60 = [(''temp'', IntV 60)]" by code_simp
  have c: "calls both_at_60 = []" by code_simp
  have e: "[ClassObj CpuController, ClassObj TempDisplay] =
      map ClassObj [CpuController, TempDisplay]" by simp
  have r: "remove1 (ClassObj CpuController) [ClassObj CpuController, ClassObj TempDisplay] =
      [ClassObj TempDisplay]" by simp
  note t = removed_once_not_notified [OF h1 h2 h3]
  from t have p1: "fst (remove (ClassObj CpuController) both_at_60) = None" ..
  from t r have p2: "registry (snd (remove (ClassObj CpuController) both_at_60)) =
      [ClassObj TempDisplay]" by simp
  have pre: "methods_intact both_at_60 \<and>
      (\<exists>cs. [ClassObj CpuController, ClassObj TempDisplay] = map ClassObj cs) \<and>
      (\<exists>i. get_vars both_at_60 = [(''temp'', IntV i)])"
  proof (intro conjI exI)
    show "methods_intact both_at_60" by (rule m)
    show "[ClassObj CpuController, ClassObj TempDisplay] =
      map ClassObj [CpuController, TempDisplay]" by (rule e)
    show "get_vars both_at_60 = [(''temp'', IntV 60)]" by (rule g)
  qed
  from t have "methods_intact both_at_60 \<and>
      (\<exists>cs. [ClassObj CpuController, ClassObj TempDisplay] = map ClassObj cs) \<and>
      (\<exists>i. get_vars both_at_60 = [(''temp'', IntV i)]) \<longrightarrow>
        fst (notify (snd (remove (ClassObj CpuController) both_at_60))) = None \<and>
        calls (snd (notify (snd (remove (ClassObj CpuController) both_at_60)))) =
          calls both_at_60 @ map (\<lambda>ob'. (ob', get_vars both_at_60))
            (remove1 (ClassObj CpuController) [ClassObj CpuController, ClassObj TempDisplay])"
    by (elim conjE)
  from this pre have "fst (notify (snd (remove (ClassObj CpuController) both_at_60))) = None \<and>
        calls (snd (notify (snd (remove (ClassObj CpuController) both_at_60)))) =
          calls both_at_60 @ map (\<lambda>ob'. (ob', get_vars both_at_60))
            (remove1 (ClassObj CpuController) [ClassObj CpuController, ClassObj TempDisplay])"
    by (rule mp)
  then have "calls (snd (notify (snd (remove (ClassObj CpuController) both_at_60)))) =
          calls both_at_60 @ map (\<lambda>ob'. (ob', get_vars both_at_60))
            (remove1 (ClassObj CpuController) [ClassObj CpuController, ClassObj TempDisplay])"
    by (rule conjunct2)
  with r g c have p3: "calls (snd (notify (snd (remove (ClassObj CpuController) both_at_60)))) =
     [(ClassObj TempDisplay, [(''temp'', IntV 60)])]"
    by simp
  from h1 h2 h3 p1 p2 p3 show ?thesis by blast
qed

text \<open>
  C4 as stated fails for an observer that was registered twice: \<^verbatim>\<open>remove\<close> takes out
  the first occurrence only, and the next \<^verbatim>\<open>notify()\<close> updates the observer through
  the second.
\<close>

theorem removed_duplicate_still_notified_counterexample:
  "registry twice_registered = [ClassObj CpuController, ClassObj CpuController] \<and>
   fst (remove (ClassObj CpuController) twice_registered) = None \<and>
   fst (notify (snd (remove (ClassObj CpuController) twice_registered))) = None \<and>
   drop (length (calls (snd (remove (ClassObj CpuController) twice_registered))))
     (calls (snd (notify (snd (remove (ClassObj CpuController) twice_registered))))) =
     [(ClassObj CpuController, [(''temp'', IntV 60)])]"
proof -
  have "registry twice_registered = [ClassObj CpuController, ClassObj CpuController]"
    by code_simp
  moreover have "fst (remove (ClassObj CpuController) twice_registered) = None"
    by code_simp
  moreover have "fst (notify (snd (remove (ClassObj CpuController) twice_registered))) = None"
    by code_simp
  moreover have "drop (length (calls (snd (remove (ClassObj CpuController) twice_registered))))
     (calls (snd (notify (snd (remove (ClassObj CpuController) twice_registered))))) =
     [(ClassObj CpuController, [(''temp'', IntV 60)])]"
    by code_simp
  ultimately show ?thesis by blast
qed

section \<open>The snapshot\<close>

text \<open>
  C8. For every state of the sensor, the snapshot is the list of the entries of the
  sensor's dictionary whose key does not begin with an underscore, in the dictionary's
  order; the registry, under \<^verbatim>\<open>_observers\<close>, is never in it; and every \<^verbatim>\<open>update\<close> that
  \<^verbatim>\<open>notify()\<close> enters receives this snapshot. For the sensor of the program, after any
  sequence of operations, the snapshot after \<^verbatim>\<open>change_measurements(v)\<close> is the one pair
  of \<^verbatim>\<open>temp\<close> and \<open>v\<close>, and with the driver's two classes registered both receive it.
\<close>

theorem snapshot_is_public_attributes:
  "get_vars w = [(key, x) \<leftarrow> sensor w. \<not> (\<exists>rest. key = CHR ''_'' # rest)] \<and>
   ''_observers'' \<notin> fst ` set (get_vars w) \<and>
   (\<exists>k. k \<le> length (registry w) \<and>
        calls (snd (notify w)) =
          calls w @ map (\<lambda>ob. (ob, get_vars w)) (take k (registry w))) \<and>
   get_vars (snd (change_measurements v (run ops (start r)))) = [(''temp'', v)] \<and>
   calls (snd (change_measurements (IntV i) (snd (driver_setup r)))) =
     [(ClassObj CpuController, [(''temp'', IntV i)]),
      (ClassObj TempDisplay, [(''temp'', IntV i)])]"
proof -
  have 1: "get_vars w = [(key, x) \<leftarrow> sensor w. \<not> (\<exists>rest. key = CHR ''_'' # rest)]"
    by (simp add: get_vars_def startswith_underscore)
  have 2: "''_observers'' \<notin> fst ` set (get_vars w)"
    using get_vars_private_free [of "''_observers''" w] private_observers by blast
  from 1 2 calls_notify_prefix [of w] get_vars_after_run [of v ops r]
    driver_measurement [of i r]
  show ?thesis by blast
qed

section \<open>Classes and instances as observers\<close>





end
